theory Spec2Isabelle
  imports Main "HOL-Library.Multiset"
begin

section \<open>Key revelation through minigames: the model\<close>

text \<open>
  The development embeds \<^verbatim>\<open>core/challenges/minigames.py\<close> (the class
  \<^verbatim>\<open>KeyRevealManager\<close>), \<^verbatim>\<open>core/challenges/models.py\<close> (the tables
  \<^verbatim>\<open>MinigameProgress\<close> and \<^verbatim>\<open>Challenge\<close>) and the five completion handlers of
  \<^verbatim>\<open>routes/minigames.py\<close>. Python integers are \<open>int\<close>, lengths and counters that
  only count up from zero are \<open>nat\<close>, strings are \<open>string\<close> (ASCII text), an exception is a
  value \<open>Inl e\<close> of a sum type, and the database session and the Flask session are passed
  in and returned explicitly.
\<close>

subsection \<open>Python values\<close>

datatype error = ZeroDivisionError

text \<open>JSON values as Python sees them (fractional numbers are not part of the model).\<close>

datatype json =
    JNull
  | JBool bool
  | JInt int
  | JStr string
  | JList "json list"
  | JObj "(string \<times> json) list"

text \<open>Truthiness of a value, as Python's \<^verbatim>\<open>x or y\<close> and \<^verbatim>\<open>not x\<close> test it.\<close>

fun truthy :: "json \<Rightarrow> bool" where
  "truthy JNull = False"
| "truthy (JBool b) = b"
| "truthy (JInt i) = (i \<noteq> 0)"
| "truthy (JStr s) = (s \<noteq> [])"
| "truthy (JList xs) = (xs \<noteq> [])"
| "truthy (JObj kvs) = (kvs \<noteq> [])"

text \<open>\<^verbatim>\<open>range(n)\<close>: empty when \<open>n \<le> 0\<close>.\<close>

definition py_range :: "int \<Rightarrow> int list" where
  "py_range n = map int [0..<nat n]"

text \<open>\<^verbatim>\<open>xs[a:b]\<close>: negative bounds count from the end, and both are clamped to the list.\<close>

definition py_slice :: "'a list \<Rightarrow> int \<Rightarrow> int \<Rightarrow> 'a list" where
  "py_slice xs a b =
     (let n = int (length xs);
          lo = (if a < 0 then max 0 (a + n) else min a n);
          hi = (if b < 0 then max 0 (b + n) else min b n)
      in take (nat (hi - lo)) (drop (nat lo) xs))"

text \<open>\<^verbatim>\<open>str(n)\<close> for a non-negative integer, used by the f-strings of the handlers.\<close>

definition digit_char :: "nat \<Rightarrow> char" where
  "digit_char d = char_of (48 + d)"

fun str_nat :: "nat \<Rightarrow> string" where
  "str_nat n = (if n < 10 then [digit_char n] else str_nat (n div 10) @ [digit_char (n mod 10)])"

declare str_nat.simps [simp del]

text \<open>\<^verbatim>\<open>str.upper\<close> and \<^verbatim>\<open>str.strip\<close> on ASCII text.\<close>

definition upper_char :: "char \<Rightarrow> char" where
  "upper_char c =
     (let n = (of_char c :: nat) in if 97 \<le> n \<and> n \<le> 122 then char_of (n - 32) else c)"

definition upper :: "string \<Rightarrow> string" where
  "upper s = map upper_char s"

definition is_space :: "char \<Rightarrow> bool" where
  "is_space c = (let n = (of_char c :: nat) in (9 \<le> n \<and> n \<le> 13) \<or> (28 \<le> n \<and> n \<le> 32))"

definition strip :: "string \<Rightarrow> string" where
  "strip s = dropWhile is_space (rev (dropWhile is_space (rev s)))"

subsection \<open>The progress table (\<^verbatim>\<open>models.MinigameProgress\<close>)\<close>

type_synonym datetime = nat

record minigame_progress =
  row_id :: nat
  user_id :: int
  challenge_id :: string
  minigame_type :: string
  part_index :: int
  revealed_part :: string
  completed_at :: "datetime option"

text \<open>
  The database session, restricted to the table \<^verbatim>\<open>minigame_progress\<close>: its rows in
  insertion order and the next value of the auto-incremented primary key.
\<close>

record db_session =
  rows :: "minigame_progress list"
  next_id :: nat

definition MinigameProgress_get_user_progress ::
    "db_session \<Rightarrow> int \<Rightarrow> string \<Rightarrow> minigame_progress list" where
  "MinigameProgress_get_user_progress db uid cid =
     filter (\<lambda>r. user_id r = uid \<and> challenge_id r = cid) (rows db)"

definition has_completed :: "db_session \<Rightarrow> int \<Rightarrow> string \<Rightarrow> string \<Rightarrow> bool" where
  "has_completed db uid cid mtype =
     (case filter (\<lambda>r. user_id r = uid \<and> challenge_id r = cid \<and> minigame_type r = mtype) (rows db) of
        [] \<Rightarrow> False
      | first # _ \<Rightarrow> True)"

text \<open>
  \<^verbatim>\<open>mark_completed\<close> adds one row and commits; the column default
  \<^verbatim>\<open>datetime.utcnow\<close> is the argument \<open>now\<close>. It returns the new row and the session.
\<close>

definition mark_completed ::
    "db_session \<Rightarrow> int \<Rightarrow> string \<Rightarrow> string \<Rightarrow> int \<Rightarrow> string \<Rightarrow> datetime
       \<Rightarrow> minigame_progress \<times> db_session" where
  "mark_completed db uid cid mtype pidx rpart now =
     (let progress = \<lparr>row_id = next_id db, user_id = uid, challenge_id = cid,
                       minigame_type = mtype, part_index = pidx, revealed_part = rpart,
                       completed_at = Some now\<rparr>
      in (progress, db\<lparr>rows := rows db @ [progress], next_id := Suc (next_id db)\<rparr>))"

subsection \<open>The challenge table (\<^verbatim>\<open>models.Challenge\<close>)\<close>

record challenge =
  ch_id :: string
  ch_type :: string
  difficulty :: string
  description :: string
  points :: string
  hints :: json
  encrypted_message :: string
  flag :: string
  is_active :: "bool option"
  files :: json

definition to_dict :: "challenge \<Rightarrow> bool \<Rightarrow> (string \<times> json) list" where
  "to_dict self exclude_flag =
     [(''id'', JStr (ch_id self)),
      (''type'', JStr (ch_type self)),
      (''difficulty'', JStr (difficulty self)),
      (''description'', JStr (description self)),
      (''points'', JStr (points self)),
      (''hints'', hints self),
      (''encrypted_message'', JStr (encrypted_message self)),
      (''flag'', JStr (flag self)),
      (''is_active'', (case is_active self of None \<Rightarrow> JNull | Some b \<Rightarrow> JBool b)),
      (''files'', (if truthy (files self) then files self else JList []))]"

subsection \<open>Key splitting (\<^verbatim>\<open>KeyRevealManager.split_key\<close>)\<close>

record key_part =
  index :: int
  part_value :: string
  game_type :: string
  revealed :: bool

definition minigame_types :: "string list" where
  "minigame_types = [''wheel'', ''quiz'', ''memory'', ''slider'', ''scramble'']"

text \<open>
  The body of \<^verbatim>\<open>for i in range(num_parts)\<close>, with the loop variables \<open>parts\<close> and
  \<open>start\<close> as arguments.
\<close>

fun split_loop ::
    "string \<Rightarrow> int \<Rightarrow> int \<Rightarrow> int list \<Rightarrow> key_part list \<Rightarrow> int \<Rightarrow> key_part list" where
  "split_loop key base_size remainder [] parts start = parts"
| "split_loop key base_size remainder (i # rest) parts start =
     (let size = base_size + (if i < remainder then 1 else 0)
      in if size > 0
         then split_loop key base_size remainder rest
                (parts @ [\<lparr>index = i,
                           part_value = py_slice key start (start + size),
                           game_type = minigame_types ! nat (i mod int (length minigame_types)),
                           revealed = False\<rparr>])
                (start + size)
         else split_loop key base_size remainder rest parts start)"

text \<open>
  \<open>//\<close> and \<open>%\<close> of Python round towards minus infinity, as \<open>div\<close> and \<open>mod\<close> on
  \<open>int\<close> do; a zero divisor raises.
\<close>

definition split_key :: "string \<Rightarrow> int \<Rightarrow> error + key_part list" where
  "split_key key num_parts =
     (if key = [] then Inr []
      else if num_parts = 0 then Inl ZeroDivisionError
      else let key_length = int (length key);
               base_size = key_length div num_parts;
               remainder = key_length mod num_parts
           in Inr (split_loop key base_size remainder (py_range num_parts) [] 0))"

subsection \<open>Progress and the revealed key\<close>

text \<open>
  The dictionary that \<^verbatim>\<open>KeyRevealManager.get_user_progress\<close> builds, one entry for
  each game type that has a row; a later row of the same type replaces the entry of an
  earlier one. The time of completion is kept as it is stored (the source formats it as
  ISO text).
\<close>

record progress_entry =
  entry_completed :: bool
  entry_revealed_part :: string
  entry_completed_at :: "datetime option"

fun progress_loop ::
    "minigame_progress list \<Rightarrow> (string \<rightharpoonup> progress_entry) \<Rightarrow> (string \<rightharpoonup> progress_entry)" where
  "progress_loop [] result = result"
| "progress_loop (record # rest) result =
     progress_loop rest
       (result(minigame_type record \<mapsto>
          \<lparr>entry_completed = True,
           entry_revealed_part = revealed_part record,
           entry_completed_at = completed_at record\<rparr>))"

definition get_user_progress :: "db_session \<Rightarrow> int \<Rightarrow> string \<Rightarrow> (string \<rightharpoonup> progress_entry)" where
  "get_user_progress db uid cid =
     progress_loop (MinigameProgress_get_user_progress db uid cid) Map.empty"

text \<open>
  \<^verbatim>\<open>part_index\<close> is a keyword argument with default \<open>0\<close>: \<open>None\<close> is a call that
  does not pass it.
\<close>

definition mark_game_completed ::
    "db_session \<Rightarrow> int \<Rightarrow> string \<Rightarrow> string \<Rightarrow> string \<Rightarrow> int option \<Rightarrow> datetime \<Rightarrow> db_session" where
  "mark_game_completed db uid cid gtype rpart pidx now =
     (if \<not> has_completed db uid cid gtype
      then snd (mark_completed db uid cid gtype (case pidx of None \<Rightarrow> 0 | Some i \<Rightarrow> i) rpart now)
      else db)"

fun reveal_loop :: "(string \<rightharpoonup> progress_entry) \<Rightarrow> key_part list \<Rightarrow> string \<Rightarrow> string" where
  "reveal_loop progress [] result = result"
| "reveal_loop progress (part # rest) result =
     (let gtype = game_type part
      in if (case progress gtype of None \<Rightarrow> False | Some e \<Rightarrow> entry_completed e)
         then reveal_loop progress rest (result @ part_value part)
         else reveal_loop progress rest (result @ replicate (length (part_value part)) CHR ''*''))"

definition get_revealed_key :: "db_session \<Rightarrow> int \<Rightarrow> string \<Rightarrow> key_part list \<Rightarrow> string" where
  "get_revealed_key db uid cid key_parts =
     reveal_loop (get_user_progress db uid cid) key_parts []"

subsection \<open>The quiz\<close>

record question =
  q_question :: string
  q_options :: "string list"
  q_answer :: int

definition QUIZ_QUESTIONS :: "question list" where
  "QUIZ_QUESTIONS =
     [\<lparr>q_question = ''What does AES stand for?'',
       q_options = [''Advanced Encryption Standard'', ''Automatic Encryption System'',
                    ''Applied Electronic Security'', ''Abstract Encoding Scheme''],
       q_answer = 0\<rparr>,
      \<lparr>q_question = ''Which encryption is asymmetric?'',
       q_options = [''AES'', ''DES'', ''RSA'', ''XOR''],
       q_answer = 2\<rparr>,
      \<lparr>q_question = ''What is the purpose of an IV in encryption?'',
       q_options = [''Speed up encryption'', ''Add randomness'', ''Compress data'',
                    ''Verify integrity''],
       q_answer = 1\<rparr>,
      \<lparr>q_question = ''Which hash function is considered insecure?'',
       q_options = [''SHA-256'', ''SHA-512'', ''MD5'', ''SHA-3''],
       q_answer = 2\<rparr>,
      \<lparr>q_question = ''What does XOR mean?'',
       q_options = [''Extra Operational Register'', ''Exclusive OR'', ''Extended Output Result'',
                    ''External Operation Request''],
       q_answer = 1\<rparr>,
      \<lparr>q_question = ''What key size does AES-256 use?'',
       q_options = [''128 bits'', ''192 bits'', ''256 bits'', ''512 bits''],
       q_answer = 2\<rparr>,
      \<lparr>q_question = ''What is a Caesar cipher?'',
       q_options = [''Substitution cipher'', ''Block cipher'', ''Stream cipher'',
                    ''Hash function''],
       q_answer = 0\<rparr>,
      \<lparr>q_question = ''What does SSL stand for?'',
       q_options = [''Secure Sockets Layer'', ''System Security Lock'', ''Safe Socket Link'',
                    ''Secure System Login''],
       q_answer = 0\<rparr>,
      \<lparr>q_question = ''What is a rainbow table used for?'',
       q_options = [''Color encryption'', ''Password cracking'', ''Data compression'',
                    ''Network routing''],
       q_answer = 1\<rparr>,
      \<lparr>q_question = ''What is the purpose of salt in hashing?'',
       q_options = [''Speed up hashing'', ''Prevent rainbow table attacks'', ''Compress data'',
                    ''Encrypt the hash''],
       q_answer = 1\<rparr>]"

text \<open>
  The loop \<^verbatim>\<open>for i, q in enumerate(questions)\<close> with its counter \<open>correct\<close>; the
  submitted answers are a list of option indices.
\<close>

fun verify_loop :: "question list \<Rightarrow> int list \<Rightarrow> nat \<Rightarrow> nat \<Rightarrow> nat" where
  "verify_loop [] answers i correct = correct"
| "verify_loop (q # rest) answers i correct =
     (if i < length answers \<and> answers ! i = q_answer q
      then verify_loop rest answers (Suc i) (correct + 1)
      else verify_loop rest answers (Suc i) correct)"

definition verify_quiz_answers :: "question list \<Rightarrow> int list \<Rightarrow> nat \<times> nat" where
  "verify_quiz_answers questions answers = (verify_loop questions answers 0 0, length questions)"

subsection \<open>The slider puzzle\<close>

text \<open>
  A tile arrangement is a list of tile numbers, Python integers; the solved state is
  \<^verbatim>\<open>list(range(1, 9)) + [0]\<close>.
\<close>

definition slider_solution :: "int list" where
  "slider_solution = map int [1..<9] @ [0]"

definition verify_slider_solution :: "int list \<Rightarrow> bool" where
  "verify_slider_solution puzzle_state = (puzzle_state = slider_solution)"

subsection \<open>The word scramble\<close>

definition SCRAMBLE_WORDS :: "(string \<times> string) list" where
  "SCRAMBLE_WORDS =
     [(''ENCRYPTION'', ''Process of encoding data''),
      (''DECRYPTION'', ''Process of decoding data''),
      (''ALGORITHM'', ''Set of rules for calculations''),
      (''CIPHERTEXT'', ''Encrypted message''),
      (''PLAINTEXT'', ''Unencrypted message''),
      (''SYMMETRIC'', ''Same key for encrypt/decrypt''),
      (''ASYMMETRIC'', ''Different keys for encrypt/decrypt''),
      (''HASHING'', ''One-way function''),
      (''SECURITY'', ''Protection from threats''),
      (''CRYPTOGRAPHY'', ''Science of secret writing'')]"

text \<open>
  The random source. \<^verbatim>\<open>random.choice\<close> returns the element at an index below the
  length of the list; the \<open>i\<close>-th call of \<^verbatim>\<open>random.shuffle\<close> rearranges the list it
  is given by the index list \<open>shuffle i\<close>, which is a permutation of the positions.
\<close>

definition permute :: "nat list \<Rightarrow> 'a list \<Rightarrow> 'a list" where
  "permute p xs = map (\<lambda>i. xs ! i) p"

definition valid_shuffle :: "nat \<Rightarrow> nat list \<Rightarrow> bool" where
  "valid_shuffle n p = (sort p = [0..<n])"

record scramble_puzzle =
  scrambled :: string
  word :: string
  hint :: string

text \<open>
  \<^verbatim>\<open>while ''.join(scrambled) == word: random.shuffle(scrambled)\<close>. The loop runs for
  as long as the shuffles return the word itself, so it need not return: \<open>None\<close>.
\<close>

partial_function (option) scramble_loop ::
    "string \<Rightarrow> string \<Rightarrow> (nat \<Rightarrow> nat list) \<Rightarrow> nat \<Rightarrow> string option" where
  "scramble_loop w cur shuffle i =
     (if cur = w then scramble_loop w (permute (shuffle i) cur) shuffle (Suc i)
      else Some cur)"

declare scramble_loop.simps [code]

definition generate_scramble :: "nat \<Rightarrow> (nat \<Rightarrow> nat list) \<Rightarrow> scramble_puzzle option" where
  "generate_scramble choice shuffle =
     (case SCRAMBLE_WORDS ! choice of (w, h) \<Rightarrow>
        (case scramble_loop w (permute (shuffle 0) w) shuffle 1 of
           None \<Rightarrow> None
         | Some s \<Rightarrow> Some \<lparr>scrambled = s, word = w, hint = h\<rparr>))"

definition verify_scramble :: "string \<Rightarrow> string \<Rightarrow> bool" where
  "verify_scramble submitted correct = (strip (upper submitted) = upper correct)"

subsection \<open>The completion handlers (\<^verbatim>\<open>routes/minigames.py\<close>)\<close>

text \<open>
  The Flask session holds the puzzle state under the keys \<^verbatim>\<open>wheel_<id>\<close>,
  \<^verbatim>\<open>quiz_<id>\<close>, \<^verbatim>\<open>memory_<id>\<close>, \<^verbatim>\<open>slider_<id>\<close> and
  \<^verbatim>\<open>scramble_<id>\<close>. The five prefixes differ, so the five families of keys are
  disjoint; each is a map from the challenge id, with the type of the values that the
  generating handler of that game stores.
\<close>

record quiz_data =
  qd_questions :: "question list"
  qd_key_part :: string

record scramble_data =
  sd_word :: string
  sd_key_part :: string

record session =
  wheel_state :: "string \<rightharpoonup> string"
  quiz_state :: "string \<rightharpoonup> quiz_data"
  memory_state :: "string \<rightharpoonup> string"
  slider_state :: "string \<rightharpoonup> string"
  scramble_state :: "string \<rightharpoonup> scramble_data"

type_synonym response = "(string \<times> json) list"

text \<open>
  Each handler takes the session, the database session, \<^verbatim>\<open>current_user.id\<close>, the
  challenge id of the URL, the field of the JSON body it reads (\<open>None\<close> when the body has
  no such field) and the time of the request; it returns the JSON response, the session
  and the database session.
\<close>

definition wheel_complete ::
    "session \<Rightarrow> db_session \<Rightarrow> int \<Rightarrow> string \<Rightarrow> datetime \<Rightarrow> response \<times> session \<times> db_session" where
  "wheel_complete sess db uid challenge now =
     (case wheel_state sess challenge of
        None \<Rightarrow> ([(''success'', JBool False), (''message'', JStr ''Invalid session'')], sess, db)
      | Some key_part \<Rightarrow>
          if key_part = []
          then ([(''success'', JBool False), (''message'', JStr ''Invalid session'')], sess, db)
          else (let db' = mark_game_completed db uid challenge ''wheel'' key_part None now;
                    sess' = sess\<lparr>wheel_state := (wheel_state sess)(challenge := None)\<rparr>
                in ([(''success'', JBool True),
                     (''revealed_part'', JStr key_part),
                     (''message'', JStr (''Key part revealed: '' @ key_part))], sess', db')))"

definition quiz_submit ::
    "session \<Rightarrow> db_session \<Rightarrow> int \<Rightarrow> string \<Rightarrow> int list option \<Rightarrow> datetime
       \<Rightarrow> response \<times> session \<times> db_session" where
  "quiz_submit sess db uid challenge answers_field now =
     (case quiz_state sess challenge of
        None \<Rightarrow> ([(''success'', JBool False), (''message'', JStr ''Invalid session'')], sess, db)
      | Some quiz \<Rightarrow>
          (let answers = (case answers_field of None \<Rightarrow> [] | Some a \<Rightarrow> a);
               questions = qd_questions quiz;
               key_part = qd_key_part quiz;
               (correct, total) = verify_quiz_answers questions answers
           in if correct \<ge> 2
              then (let db' = mark_game_completed db uid challenge ''quiz'' key_part None now;
                        sess' = sess\<lparr>quiz_state := (quiz_state sess)(challenge := None)\<rparr>
                    in ([(''success'', JBool True),
                         (''correct'', JInt (int correct)),
                         (''total'', JInt (int total)),
                         (''revealed_part'', JStr key_part),
                         (''message'', JStr (''Correct! Key part: '' @ key_part))], sess', db'))
              else ([(''success'', JBool False),
                     (''correct'', JInt (int correct)),
                     (''total'', JInt (int total)),
                     (''message'', JStr (''You got '' @ str_nat correct @ ''/'' @ str_nat total
                                          @ ''. Need at least 2 correct!''))], sess, db)))"

definition memory_complete ::
    "session \<Rightarrow> db_session \<Rightarrow> int \<Rightarrow> string \<Rightarrow> datetime \<Rightarrow> response \<times> session \<times> db_session" where
  "memory_complete sess db uid challenge now =
     (case memory_state sess challenge of
        None \<Rightarrow> ([(''success'', JBool False), (''message'', JStr ''Invalid session'')], sess, db)
      | Some key_part \<Rightarrow>
          if key_part = []
          then ([(''success'', JBool False), (''message'', JStr ''Invalid session'')], sess, db)
          else (let db' = mark_game_completed db uid challenge ''memory'' key_part None now;
                    sess' = sess\<lparr>memory_state := (memory_state sess)(challenge := None)\<rparr>
                in ([(''success'', JBool True),
                     (''revealed_part'', JStr key_part),
                     (''message'', JStr (''Key part revealed: '' @ key_part))], sess', db')))"

definition slider_complete ::
    "session \<Rightarrow> db_session \<Rightarrow> int \<Rightarrow> string \<Rightarrow> int list option \<Rightarrow> datetime
       \<Rightarrow> response \<times> session \<times> db_session" where
  "slider_complete sess db uid challenge state_field now =
     (case slider_state sess challenge of
        None \<Rightarrow> ([(''success'', JBool False), (''message'', JStr ''Invalid session'')], sess, db)
      | Some key_part \<Rightarrow>
          if key_part = []
          then ([(''success'', JBool False), (''message'', JStr ''Invalid session'')], sess, db)
          else (let puzzle_state = (case state_field of None \<Rightarrow> [] | Some s \<Rightarrow> s)
                in if verify_slider_solution puzzle_state
                   then (let db' = mark_game_completed db uid challenge ''slider'' key_part None now;
                             sess' = sess\<lparr>slider_state := (slider_state sess)(challenge := None)\<rparr>
                         in ([(''success'', JBool True),
                              (''revealed_part'', JStr key_part),
                              (''message'', JStr (''Key part revealed: '' @ key_part))], sess', db'))
                   else ([(''success'', JBool False),
                          (''message'', JStr ''Puzzle not solved yet!'')], sess, db)))"

definition scramble_submit ::
    "session \<Rightarrow> db_session \<Rightarrow> int \<Rightarrow> string \<Rightarrow> string option \<Rightarrow> datetime
       \<Rightarrow> response \<times> session \<times> db_session" where
  "scramble_submit sess db uid challenge answer_field now =
     (case scramble_state sess challenge of
        None \<Rightarrow> ([(''success'', JBool False), (''message'', JStr ''Invalid session'')], sess, db)
      | Some scramble \<Rightarrow>
          (let answer = (case answer_field of None \<Rightarrow> [] | Some a \<Rightarrow> a)
           in if verify_scramble answer (sd_word scramble)
              then (let key_part = sd_key_part scramble;
                        db' = mark_game_completed db uid challenge ''scramble'' key_part None now;
                        sess' = sess\<lparr>scramble_state := (scramble_state sess)(challenge := None)\<rparr>
                    in ([(''success'', JBool True),
                         (''revealed_part'', JStr key_part),
                         (''word'', JStr (sd_word scramble)),
                         (''message'', JStr (''Correct! Key part: '' @ key_part))], sess', db'))
              else ([(''success'', JBool False),
                     (''message'', JStr ''Incorrect! Try again.'')], sess, db)))"

subsection \<open>Auxiliary notions for the proofs\<close>

text \<open>
  The size the loop of \<open>split_key\<close> computes for index \<open>i\<close>, the value of \<open>start\<close>
  when it reaches index \<open>i\<close>, and the part it appends there.
\<close>

definition part_size :: "int \<Rightarrow> int \<Rightarrow> int \<Rightarrow> int" where
  "part_size b r i = b + (if i < r then 1 else 0)"

definition part_start :: "int \<Rightarrow> int \<Rightarrow> int \<Rightarrow> int" where
  "part_start b r i = i * b + min i r"

definition mk_part :: "string \<Rightarrow> int \<Rightarrow> int \<Rightarrow> int \<Rightarrow> key_part" where
  "mk_part key b r i =
     \<lparr>index = i,
      part_value = take (nat (part_size b r i)) (drop (nat (part_start b r i)) key),
      game_type = minigame_types ! (nat i mod 5),
      revealed = False\<rparr>"

text \<open>What \<open>get_revealed_key\<close> shows of one part.\<close>

definition shown :: "db_session \<Rightarrow> int \<Rightarrow> string \<Rightarrow> key_part \<Rightarrow> string" where
  "shown db uid cid p =
     (if has_completed db uid cid (game_type p) then part_value p
      else replicate (length (part_value p)) CHR ''*'')"

text \<open>
  The scenario of the specification: user \<open>7\<close> on the challenge \<open>aes_easy\<close> with the
  key \<open>SECRET12\<close>; the store after the given games were completed, one call of
  \<open>mark_game_completed\<close> each, and the five parts of the key.
\<close>

definition scenario_db :: "(string \<times> string) list \<Rightarrow> db_session" where
  "scenario_db done =
     foldl (\<lambda>db (g, part). mark_game_completed db 7 ''aes_easy'' g part None 1000)
       \<lparr>rows = [], next_id = 1\<rparr> done"

definition scenario_parts :: "key_part list" where
  "scenario_parts =
     [\<lparr>index = 0, part_value = ''SE'', game_type = ''wheel'', revealed = False\<rparr>,
      \<lparr>index = 1, part_value = ''CR'', game_type = ''quiz'', revealed = False\<rparr>,
      \<lparr>index = 2, part_value = ''ET'', game_type = ''memory'', revealed = False\<rparr>,
      \<lparr>index = 3, part_value = ''1'', game_type = ''slider'', revealed = False\<rparr>,
      \<lparr>index = 4, part_value = ''2'', game_type = ''scramble'', revealed = False\<rparr>]"

definition same_game :: "int \<Rightarrow> string \<Rightarrow> string \<Rightarrow> minigame_progress \<Rightarrow> bool" where
  "same_game uid cid g r = (user_id r = uid \<and> challenge_id r = cid \<and> minigame_type r = g)"

definition empty_session :: session where
  "empty_session = \<lparr>wheel_state = Map.empty, quiz_state = Map.empty, memory_state = Map.empty,
                     slider_state = Map.empty, scramble_state = Map.empty\<rparr>"

definition quiz_session :: session where
  "quiz_session =
     empty_session\<lparr>quiz_state :=
       [''aes_easy'' \<mapsto> \<lparr>qd_questions = take 3 QUIZ_QUESTIONS, qd_key_part = ''CR''\<rparr>]\<rparr>"

definition appends_default_index :: "db_session \<Rightarrow> db_session \<Rightarrow> bool" where
  "appends_default_index db db' =
     (\<exists>new. rows db' = rows db @ new \<and> (\<forall>r \<in> set new. part_index r = 0))"

section \<open>Key splitting\<close>

lemma py_slice_nonneg:
  assumes "0 \<le> a" "a \<le> b"
  shows "py_slice xs a b = take (nat (b - a)) (drop (nat a) xs)"
proof (cases "a < int (length xs)")
  case True
  with assms show ?thesis
    by (auto simp: py_slice_def Let_def min_def)
next
  case False
  with assms show ?thesis
    by (simp add: py_slice_def Let_def min_def)
qed

lemma split_loop_acc:
  "split_loop key b r ixs parts start = parts @ split_loop key b r ixs [] start"
proof (induction ixs arbitrary: parts start)
  case Nil
  show ?case by simp
next
  case (Cons i rest)
  show ?case
    using Cons.IH[of "parts @ [x]" for x] Cons.IH[of "[x]" for x] Cons.IH[of parts]
    by (simp add: Let_def)
qed

lemma part_start_Suc:
  "0 \<le> i \<Longrightarrow> part_start b r (i + 1) = part_start b r i + part_size b r i"
  by (simp add: part_start_def part_size_def algebra_simps min_def)

lemma part_start_nonneg: "0 \<le> b \<Longrightarrow> 0 \<le> r \<Longrightarrow> 0 \<le> i \<Longrightarrow> 0 \<le> part_start b r i"
  by (simp add: part_start_def)

lemma part_size_nonneg: "0 \<le> b \<Longrightarrow> 0 \<le> part_size b r i"
  by (simp add: part_size_def)

lemma part_start_mono:
  assumes "0 \<le> b" "0 \<le> i" "i \<le> j"
  shows "part_start b r i \<le> part_start b r j"
proof -
  have "i * b \<le> j * b" using assms by (simp add: mult_right_mono)
  moreover have "min i r \<le> min j r" using assms by simp
  ultimately show ?thesis by (simp add: part_start_def add_mono)
qed

lemma part_start_total:
  assumes "0 < n"
  shows "part_start (l div n) (l mod n) n = l"
proof -
  have "l mod n < n" using assms by simp
  then have "min n (l mod n) = l mod n" by simp
  then show ?thesis by (simp add: part_start_def mult.commute)
qed

lemma split_loop_range:
  assumes "0 \<le> b" "0 \<le> r"
  shows "split_loop key b r (map int [k..<n]) [] (part_start b r (int k)) =
         map (mk_part key b r) (filter (\<lambda>i. 0 < part_size b r i) (map int [k..<n]))"
proof (induction "n - k" arbitrary: k)
  case 0
  then show ?case by simp
next
  case (Suc d)
  then have kn: "k < n" and d: "d = n - Suc k" by simp_all
  have st: "0 \<le> part_start b r (int k)"
    using assms by (simp add: part_start_def)
  have nxt: "part_start b r (int k) + part_size b r (int k) = part_start b r (int (Suc k))"
    using part_start_Suc[of "int k" b r] by (simp add: add.commute)
  have mod5: "nat (int k mod int (length minigame_types)) = nat (int k) mod 5"
    by (simp add: minigame_types_def nat_mod_distrib)
  show ?case
  proof (cases "0 < part_size b r (int k)")
    case True
    have sl: "py_slice key (part_start b r (int k)) (part_start b r (int k) + part_size b r (int k))
              = take (nat (part_size b r (int k))) (drop (nat (part_start b r (int k))) key)"
      using py_slice_nonneg[of "part_start b r (int k)" "part_start b r (int k) + part_size b r (int k)" key]
        st True by simp
    show ?thesis
      using True kn Suc.hyps(1)[OF d] sl mod5
      apply (simp add: upt_conv_Cons Let_def part_size_def[symmetric] del: upt_Suc)
      apply (subst split_loop_acc)
      apply (simp add: nxt mk_part_def)
      done
  next
    case False
    then have z: "part_size b r (int k) = 0"
      using assms by (simp add: part_size_def split: if_splits)
    show ?thesis
      using False kn Suc.hyps(1)[OF d] nxt z
      by (simp add: upt_conv_Cons Let_def part_size_def[symmetric] del: upt_Suc)
  qed
qed

lemma split_key_closed:
  assumes "key \<noteq> []" "0 < n"
  shows "split_key key n =
           Inr (map (mk_part key (int (length key) div n) (int (length key) mod n))
                  (filter (\<lambda>i. 0 < part_size (int (length key) div n) (int (length key) mod n) i)
                     (py_range n)))"
proof -
  have b: "0 \<le> int (length key) div n" using assms by (simp add: pos_imp_zdiv_nonneg_iff)
  have r: "0 \<le> int (length key) mod n" using assms by simp
  have "part_start (int (length key) div n) (int (length key) mod n) (int 0) = 0"
    using r by (simp add: part_start_def)
  with split_loop_range[OF b r, of key 0 "nat n"] assms show ?thesis
    by (simp add: split_key_def Let_def py_range_def)
qed

lemma concat_parts:
  assumes "0 \<le> b" "0 \<le> r"
  shows "concat (map (\<lambda>i. part_value (mk_part key b r i))
                  (filter (\<lambda>i. 0 < part_size b r i) (map int [0..<n])))
         = take (nat (part_start b r (int n))) key"
proof (induction n)
  case 0
  show ?case by (simp add: part_start_def)
next
  case (Suc n)
  have st: "0 \<le> part_start b r (int n)" using assms by (simp add: part_start_def)
  have sz: "0 \<le> part_size b r (int n)" using assms by (simp add: part_size_def)
  have nxt: "part_start b r (int (Suc n)) = part_start b r (int n) + part_size b r (int n)"
    using part_start_Suc[of "int n" b r] by (simp add: add.commute)
  have tk: "take (nat (part_start b r (int n))) key
              @ take (nat (part_size b r (int n))) (drop (nat (part_start b r (int n))) key)
            = take (nat (part_start b r (int (Suc n)))) key"
    unfolding nxt using st sz by (simp add: nat_add_distrib take_add)
  show ?case
  proof (cases "0 < part_size b r (int n)")
    case True
    then show ?thesis using Suc tk by (simp add: mk_part_def)
  next
    case False
    with sz have "part_size b r (int n) = 0" by simp
    then show ?thesis using Suc nxt by simp
  qed
qed

lemma split_key_concat:
  assumes "key \<noteq> []" "0 < n" "split_key key n = Inr parts"
  shows "concat (map part_value parts) = key"
proof -
  let ?b = "int (length key) div n" and ?r = "int (length key) mod n"
  have b: "0 \<le> ?b" using assms by (simp add: pos_imp_zdiv_nonneg_iff)
  have r: "0 \<le> ?r" using assms by simp
  have parts: "parts = map (mk_part key ?b ?r) (filter (\<lambda>i. 0 < part_size ?b ?r i) (py_range n))"
    using split_key_closed[OF assms(1,2)] assms(3) by simp
  have "concat (map part_value parts) = take (nat (part_start ?b ?r (int (nat n)))) key"
    unfolding parts py_range_def using concat_parts[OF b r, of key "nat n"]
    by (simp add: comp_def)
  also have "part_start ?b ?r (int (nat n)) = int (length key)"
    using part_start_total[OF assms(2), of "int (length key)"] assms(2) by simp
  finally show ?thesis by simp
qed

lemma mk_part_length:
  assumes "0 \<le> b" "0 \<le> r" "0 \<le> i" "part_start b r (i + 1) \<le> int (length key)"
  shows "int (length (part_value (mk_part key b r i))) = part_size b r i"
proof -
  have st: "0 \<le> part_start b r i" using assms by (simp add: part_start_def)
  have sz: "0 \<le> part_size b r i" using assms by (simp add: part_size_def)
  have "part_start b r i + part_size b r i \<le> int (length key)"
    using assms(4) part_start_Suc[OF assms(3), of b r] by simp
  then have "nat (part_size b r i) \<le> length key - nat (part_start b r i)"
    using st sz by linarith
  then show ?thesis using sz by (simp add: mk_part_def min_def)
qed


lemma split_key_indices:
  assumes "key \<noteq> []" "0 < n" "split_key key n = Inr parts"
  shows "map index parts =
           filter (\<lambda>i. 0 < part_size (int (length key) div n) (int (length key) mod n) i) (py_range n)"
proof -
  have "map index (map (mk_part key b r) xs) = xs" for b r xs
    by (induction xs) (simp_all add: mk_part_def)
  then show ?thesis using split_key_closed[OF assms(1,2)] assms(3) by simp
qed

lemma split_key_part:
  assumes "key \<noteq> []" "0 < n" "split_key key n = Inr parts" "p \<in> set parts"
  shows "0 \<le> index p \<and> index p < n
         \<and> 0 < part_size (int (length key) div n) (int (length key) mod n) (index p)
         \<and> int (length (part_value p))
             = part_size (int (length key) div n) (int (length key) mod n) (index p)
         \<and> game_type p = minigame_types ! (nat (index p) mod 5)
         \<and> \<not> revealed p"
proof -
  let ?b = "int (length key) div n" and ?r = "int (length key) mod n"
  have b: "0 \<le> ?b" using assms by (simp add: pos_imp_zdiv_nonneg_iff)
  have r: "0 \<le> ?r" using assms by simp
  from split_key_closed[OF assms(1,2)] assms(3,4)
  obtain i where i: "i \<in> set (py_range n)" "0 < part_size ?b ?r i" and p: "p = mk_part key ?b ?r i"
    by auto
  from i(1) have i0: "0 \<le> i" and il: "i < n" by (auto simp: py_range_def)
  have "part_start ?b ?r (i + 1) \<le> part_start ?b ?r n"
    using part_start_mono[OF b, of "i + 1" n ?r] i0 il by simp
  then have "part_start ?b ?r (i + 1) \<le> int (length key)"
    using part_start_total[OF assms(2), of "int (length key)"] by simp
  from mk_part_length[OF b r i0 this] i i0 il show ?thesis
    by (simp add: p mk_part_def)
qed

lemma sorted_filter_range: "sorted_wrt (<) (filter P (py_range n))"
proof -
  have "sorted_wrt (<) (map int [0..<nat n])"
    by (simp add: sorted_wrt_map)
  then show ?thesis unfolding py_range_def by (rule sorted_wrt_filter)
qed

text \<open>
  Outside the part counts \<open>n \<ge> 1\<close>: a zero count raises on a non-empty key, and a
  negative count runs the loop no time, so no part is returned.
\<close>

lemma split_key_nonpositive:
  "key \<noteq> [] \<Longrightarrow> split_key key 0 = Inl ZeroDivisionError"
  "key \<noteq> [] \<Longrightarrow> n < 0 \<Longrightarrow> split_key key n = Inr []"
  by (simp_all add: split_key_def Let_def py_range_def)

text \<open>
  Claim C2. For every non-empty string \<open>k\<close> and every part count \<open>n \<ge> 1\<close> (so for each
  \<open>n\<close> of \<open>1, \<dots>, 8\<close>), \<open>split_key k n\<close> returns a list of parts, in increasing order
  of their \<open>index\<close>, whose values concatenated in that order are \<open>k\<close>: no character is
  skipped and none is duplicated.
\<close>

theorem split_key_reassemble:
  assumes "k \<noteq> []" and "1 \<le> n"
  shows "\<exists>parts. split_key k n = Inr parts
           \<and> concat (map part_value parts) = k
           \<and> sorted_wrt (<) (map index parts)"
proof -
  from assms have n: "0 < n" by simp
  obtain parts where parts: "split_key k n = Inr parts"
    using split_key_closed[OF assms(1) n] by blast
  have "concat (map part_value parts) = k"
    by (rule split_key_concat[OF assms(1) n parts])
  moreover have "sorted_wrt (<) (map index parts)"
    unfolding split_key_indices[OF assms(1) n parts] by (rule sorted_filter_range)
  ultimately show ?thesis using parts by blast
qed

text \<open>
  Claim C3. \<open>split_key\<close> returns the empty list for the empty key. For a non-empty key and
  a part count \<open>n \<ge> 1\<close>, with \<open>base = len div n\<close> and \<open>rem = len mod n\<close>: the loop
  indices of the returned parts are those of \<open>range(n)\<close> whose size \<open>base + 1\<close> (for
  \<open>i < rem\<close>) or \<open>base\<close> (otherwise) is positive, in order; each returned part has that
  length, hence is not empty; and the part of loop index \<open>i\<close> has the game type at position
  \<open>i mod 5\<close> of wheel, quiz, memory, slider, scramble.
\<close>

theorem split_key_partition:
  "split_key [] n = Inr []
   \<and> (key \<noteq> [] \<and> 0 < n \<longrightarrow>
        (\<exists>parts. split_key key n = Inr parts
           \<and> map index parts =
               filter (\<lambda>i. 0 < int (length key) div n + (if i < int (length key) mod n then 1 else 0))
                 (py_range n)
           \<and> (\<forall>p \<in> set parts.
                 int (length (part_value p)) =
                   (if index p < int (length key) mod n then int (length key) div n + 1
                    else int (length key) div n)
               \<and> part_value p \<noteq> []
               \<and> game_type p =
                   [''wheel'', ''quiz'', ''memory'', ''slider'', ''scramble''] ! (nat (index p) mod 5))))"
proof (intro conjI impI)
  show "split_key [] n = Inr []" by (simp add: split_key_def)
next
  assume h: "key \<noteq> [] \<and> 0 < n"
  then have k: "key \<noteq> []" and n: "0 < n" by simp_all
  obtain parts where parts: "split_key key n = Inr parts"
    using split_key_closed[OF k n] by blast
  have ix: "map index parts =
               filter (\<lambda>i. 0 < int (length key) div n + (if i < int (length key) mod n then 1 else 0))
                 (py_range n)"
    using split_key_indices[OF k n parts] by (simp add: part_size_def)
  have each: "int (length (part_value p)) =
                   (if index p < int (length key) mod n then int (length key) div n + 1
                    else int (length key) div n)
               \<and> part_value p \<noteq> []
               \<and> game_type p =
                   [''wheel'', ''quiz'', ''memory'', ''slider'', ''scramble''] ! (nat (index p) mod 5)"
    if "p \<in> set parts" for p
  proof -
    from split_key_part[OF k n parts that]
    have sz: "0 < part_size (int (length key) div n) (int (length key) mod n) (index p)"
      and len: "int (length (part_value p))
             = part_size (int (length key) div n) (int (length key) mod n) (index p)"
      and gt: "game_type p = minigame_types ! (nat (index p) mod 5)"
      by simp_all
    from sz len have "part_value p \<noteq> []" by auto
    with len gt show ?thesis by (simp add: part_size_def minigame_types_def)
  qed
  show "\<exists>parts. split_key key n = Inr parts
           \<and> map index parts =
               filter (\<lambda>i. 0 < int (length key) div n + (if i < int (length key) mod n then 1 else 0))
                 (py_range n)
           \<and> (\<forall>p \<in> set parts.
                 int (length (part_value p)) =
                   (if index p < int (length key) mod n then int (length key) div n + 1
                    else int (length key) div n)
               \<and> part_value p \<noteq> []
               \<and> game_type p =
                   [''wheel'', ''quiz'', ''memory'', ''slider'', ''scramble''] ! (nat (index p) mod 5))"
    using parts ix each by blast
qed


theorem split_key_reassemble_witness:
  "''SECRET12345'' \<noteq> [] \<and> (1::int) \<le> 8
   \<and> (\<exists>parts. split_key ''SECRET12345'' 8 = Inr parts
         \<and> concat (map part_value parts) = ''SECRET12345''
         \<and> sorted_wrt (<) (map index parts))"
  using split_key_reassemble[of "''SECRET12345''" 8] by simp

theorem split_key_partition_witness:
  "''SECRET12'' \<noteq> [] \<and> (0::int) < 5
   \<and> (\<exists>parts. split_key ''SECRET12'' 5 = Inr parts
         \<and> map index parts = [0, 1, 2, 3, 4]
         \<and> (\<forall>p \<in> set parts.
               int (length (part_value p)) = (if index p < 3 then 2 else 1)
             \<and> part_value p \<noteq> []
             \<and> game_type p =
                 [''wheel'', ''quiz'', ''memory'', ''slider'', ''scramble''] ! (nat (index p) mod 5)))"
proof -
  have r: "py_range 5 = [0, 1, 2, 3, 4]"
    by (simp add: py_range_def upt_conv_Cons)
  show ?thesis
    using split_key_partition[of 5 "''SECRET12''"] by (simp add: r split del: if_split cong: if_cong)
qed

section \<open>The revealed key\<close>

lemma has_completed_iff:
  "has_completed db uid cid g \<longleftrightarrow>
     (\<exists>r \<in> set (rows db). user_id r = uid \<and> challenge_id r = cid \<and> minigame_type r = g)"
proof -
  have "(case filter P xs of [] \<Rightarrow> False | x # _ \<Rightarrow> True) \<longleftrightarrow> (\<exists>x \<in> set xs. P x)"
    for P :: "minigame_progress \<Rightarrow> bool" and xs
  proof -
    have "(case filter P xs of [] \<Rightarrow> False | x # _ \<Rightarrow> True) \<longleftrightarrow> filter P xs \<noteq> []"
      by (cases "filter P xs") simp_all
    then show ?thesis by (simp add: filter_empty_conv)
  qed
  then show ?thesis unfolding has_completed_def by simp
qed

lemma progress_loop_completed:
  "(case progress_loop recs m g of None \<Rightarrow> False | Some e \<Rightarrow> entry_completed e) \<longleftrightarrow>
     (\<exists>r \<in> set recs. minigame_type r = g)
     \<or> (case m g of None \<Rightarrow> False | Some e \<Rightarrow> entry_completed e)"
  by (induction recs arbitrary: m) auto

lemma get_user_progress_completed:
  "(case get_user_progress db uid cid g of None \<Rightarrow> False | Some e \<Rightarrow> entry_completed e)
     \<longleftrightarrow> has_completed db uid cid g"
  unfolding get_user_progress_def progress_loop_completed has_completed_iff
    MinigameProgress_get_user_progress_def
  by auto

lemma reveal_loop_concat:
  "reveal_loop progress parts result =
     result @ concat (map (\<lambda>p. if (case progress (game_type p) of None \<Rightarrow> False
                                          | Some e \<Rightarrow> entry_completed e)
                                 then part_value p
                                 else replicate (length (part_value p)) CHR ''*'') parts)"
  by (induction parts arbitrary: result) (simp_all add: Let_def)

lemma get_revealed_key_shown:
  "get_revealed_key db uid cid parts = concat (map (shown db uid cid) parts)"
  unfolding get_revealed_key_def reveal_loop_concat shown_def get_user_progress_completed
  by simp

lemma length_shown: "length (shown db uid cid p) = length (part_value p)"
  by (simp add: shown_def)

lemma length_concat_shown:
  "length (concat (map (shown db uid cid) parts)) = length (concat (map part_value parts))"
  by (induction parts) (simp_all add: length_shown)

lemma concat_masked:
  "\<forall>p \<in> set parts. \<not> has_completed db uid cid (game_type p) \<Longrightarrow>
   concat (map (shown db uid cid) parts)
     = replicate (length (concat (map part_value parts))) CHR ''*''"
  by (induction parts) (simp_all add: shown_def replicate_add)

lemma concat_revealed:
  "\<forall>p \<in> set parts. has_completed db uid cid (game_type p) \<Longrightarrow>
   concat (map (shown db uid cid) parts) = concat (map part_value parts)"
  by (induction parts) (simp_all add: shown_def)

lemma no_progress_not_completed:
  "MinigameProgress_get_user_progress db uid cid = [] \<Longrightarrow> \<not> has_completed db uid cid g"
  unfolding has_completed_iff MinigameProgress_get_user_progress_def
  by (auto simp: filter_empty_conv)

lemma split_key_game_type_mem:
  assumes "0 < n" "split_key key n = Inr parts" "p \<in> set parts"
  shows "game_type p \<in> set minigame_types"
proof (cases "key = []")
  case True
  with assms show ?thesis by (simp add: split_key_def)
next
  case False
  from split_key_part[OF False assms]
  have "game_type p = minigame_types ! (nat (index p) mod 5)" by simp
  moreover have "nat (index p) mod 5 < length minigame_types"
    by (simp add: minigame_types_def)
  ultimately show ?thesis by (metis nth_mem)
qed

lemma split_key_concat_any:
  assumes "0 < n" "split_key key n = Inr parts"
  shows "concat (map part_value parts) = key"
proof (cases "key = []")
  case True
  with assms show ?thesis by (simp add: split_key_def)
next
  case False
  then show ?thesis using assms by (rule split_key_concat)
qed

text \<open>
  Claim C1. For every store, user, challenge and list of parts, \<open>get_revealed_key\<close>
  emits, part by part and in order, the value of a part whose game type the user has
  completed for the challenge and otherwise as many \<open>*\<close> as the value is long; so its
  length is the sum of the lengths of the parts. For the parts that \<open>split_key\<close> returns
  for a key (part count \<open>n \<ge> 1\<close>) the length is the length of the key; with no
  progress row of the user for the challenge the output is all \<open>*\<close>; with the five
  game types completed it is the key.
\<close>

theorem get_revealed_key_masking:
  "get_revealed_key db uid cid key_parts =
     concat (map (\<lambda>p. if has_completed db uid cid (game_type p) then part_value p
                       else replicate (length (part_value p)) CHR ''*'') key_parts)
   \<and> length (get_revealed_key db uid cid key_parts)
       = sum_list (map (\<lambda>p. length (part_value p)) key_parts)
   \<and> (0 < n \<and> split_key key n = Inr key_parts \<longrightarrow>
        length (get_revealed_key db uid cid key_parts) = length key
      \<and> (MinigameProgress_get_user_progress db uid cid = [] \<longrightarrow>
           get_revealed_key db uid cid key_parts = replicate (length key) CHR ''*'')
      \<and> ((\<forall>g \<in> set minigame_types. has_completed db uid cid g) \<longrightarrow>
           get_revealed_key db uid cid key_parts = key))"
proof (intro conjI impI)
  show "get_revealed_key db uid cid key_parts =
     concat (map (\<lambda>p. if has_completed db uid cid (game_type p) then part_value p
                       else replicate (length (part_value p)) CHR ''*'') key_parts)"
    using get_revealed_key_shown[of db uid cid key_parts] by (simp add: shown_def[abs_def])
next
  show "length (get_revealed_key db uid cid key_parts)
       = sum_list (map (\<lambda>p. length (part_value p)) key_parts)"
    unfolding get_revealed_key_shown length_concat_shown
    by (simp add: length_concat comp_def)
next
  assume h: "0 < n \<and> split_key key n = Inr key_parts"
  then have c: "concat (map part_value key_parts) = key"
    using split_key_concat_any by blast
  show "length (get_revealed_key db uid cid key_parts) = length key"
    unfolding get_revealed_key_shown length_concat_shown c ..
  {
    assume "MinigameProgress_get_user_progress db uid cid = []"
    then have "\<forall>p \<in> set key_parts. \<not> has_completed db uid cid (game_type p)"
      using no_progress_not_completed by blast
    from concat_masked[OF this] c
    show "get_revealed_key db uid cid key_parts = replicate (length key) CHR ''*''"
      unfolding get_revealed_key_shown by simp
  }
  {
    assume a: "\<forall>g \<in> set minigame_types. has_completed db uid cid g"
    have "\<forall>p \<in> set key_parts. has_completed db uid cid (game_type p)"
      using a h split_key_game_type_mem by blast
    from concat_revealed[OF this] c
    show "get_revealed_key db uid cid key_parts = key"
      unfolding get_revealed_key_shown by simp
  }
qed

lemma scenario_split: "split_key ''SECRET12'' 5 = Inr scenario_parts"
  by code_simp

theorem get_revealed_key_masking_witness:
  "(0::int) < 5 \<and> split_key ''SECRET12'' 5 = Inr scenario_parts
   \<and> MinigameProgress_get_user_progress (scenario_db []) 7 ''aes_easy'' = []
   \<and> get_revealed_key (scenario_db []) 7 ''aes_easy'' scenario_parts = ''********''
   \<and> get_revealed_key (scenario_db [(''wheel'', ''SE''), (''quiz'', ''CR'')]) 7 ''aes_easy''
        scenario_parts = ''SECR****''
   \<and> list_all
         (has_completed
            (scenario_db [(''wheel'', ''SE''), (''quiz'', ''CR''), (''memory'', ''ET''),
                          (''slider'', ''1''), (''scramble'', ''2'')]) 7 ''aes_easy'')
         minigame_types
   \<and> get_revealed_key
         (scenario_db [(''wheel'', ''SE''), (''quiz'', ''CR''), (''memory'', ''ET''),
                       (''slider'', ''1''), (''scramble'', ''2'')]) 7 ''aes_easy''
         scenario_parts = ''SECRET12''"
proof -
  let ?two = "scenario_db [(''wheel'', ''SE''), (''quiz'', ''CR'')]"
  let ?all = "scenario_db [(''wheel'', ''SE''), (''quiz'', ''CR''), (''memory'', ''ET''),
                         (''slider'', ''1''), (''scramble'', ''2'')]"
  have n: "(0::int) < 5" by simp
  have none: "MinigameProgress_get_user_progress (scenario_db []) 7 ''aes_easy'' = []"
    by code_simp
  have all: "\<forall>g \<in> set minigame_types. has_completed ?all 7 ''aes_easy'' g"
    by code_simp
  have wq: "has_completed ?two 7 ''aes_easy'' ''wheel''" "has_completed ?two 7 ''aes_easy'' ''quiz''"
    "\<not> has_completed ?two 7 ''aes_easy'' ''memory''" "\<not> has_completed ?two 7 ''aes_easy'' ''slider''"
    "\<not> has_completed ?two 7 ''aes_easy'' ''scramble''"
    by code_simp+
  have r0: "get_revealed_key (scenario_db []) 7 ''aes_easy'' scenario_parts = ''********''"
    using get_revealed_key_masking[of "scenario_db []" 7 "''aes_easy''" scenario_parts 5 "''SECRET12''",
        THEN conjunct2, THEN conjunct2]
      n scenario_split none by simp
  have r2: "get_revealed_key ?two 7 ''aes_easy'' scenario_parts = ''SECR****''"
    using get_revealed_key_masking[of ?two 7 "''aes_easy''" scenario_parts 5 "''SECRET12''",
        THEN conjunct1] wq
    by (simp add: scenario_parts_def)
  have r5: "get_revealed_key ?all 7 ''aes_easy'' scenario_parts = ''SECRET12''"
    using get_revealed_key_masking[of ?all 7 "''aes_easy''" scenario_parts 5 "''SECRET12''",
        THEN conjunct2, THEN conjunct2]
      n scenario_split all by simp
  have all': "list_all (has_completed ?all 7 ''aes_easy'') minigame_types"
    using all by (simp add: list_all_iff)
  show ?thesis using n scenario_split none all' r0 r2 r5 by blast
qed

section \<open>Idempotent completion and serialisation\<close>

lemma has_completed_count:
  "has_completed db uid cid g \<longleftrightarrow> 0 < length (filter (same_game uid cid g) (rows db))"
  unfolding has_completed_iff by (auto simp: same_game_def[abs_def] filter_empty_conv)

lemma mark_game_completed_noop:
  "has_completed db uid cid g \<Longrightarrow> mark_game_completed db uid cid g rp pidx now = db"
  by (simp add: mark_game_completed_def)

lemma mark_game_completed_rows:
  "rows (mark_game_completed db uid cid g rp pidx now) =
     (if has_completed db uid cid g then rows db
      else rows db @ [\<lparr>row_id = next_id db, user_id = uid, challenge_id = cid,
                        minigame_type = g, part_index = (case pidx of None \<Rightarrow> 0 | Some i \<Rightarrow> i),
                        revealed_part = rp, completed_at = Some now\<rparr>])"
  by (simp add: mark_game_completed_def mark_completed_def Let_def)

lemma has_completed_after:
  "has_completed (mark_game_completed db uid cid g rp pidx now) uid cid g"
  unfolding has_completed_iff mark_game_completed_rows
  by (auto simp: has_completed_iff)

lemma count_after:
  "length (filter (same_game uid cid g) (rows (mark_game_completed db uid cid g rp pidx now)))
     = max 1 (length (filter (same_game uid cid g) (rows db)))"
proof (cases "has_completed db uid cid g")
  case True
  then have "1 \<le> length (filter (same_game uid cid g) (rows db))"
    unfolding has_completed_count by linarith
  with True show ?thesis
    by (simp add: mark_game_completed_rows max_def)
next
  case False
  then have "length (filter (same_game uid cid g) (rows db)) = 0"
    using has_completed_count[of db uid cid g] by simp
  with False show ?thesis by (simp add: mark_game_completed_rows same_game_def)
qed

lemma count_after_calls:
  "calls \<noteq> [] \<Longrightarrow>
   length (filter (same_game uid cid g)
     (rows (foldl (\<lambda>d (rp, pidx, now). mark_game_completed d uid cid g rp pidx now) db calls)))
     = max 1 (length (filter (same_game uid cid g) (rows db)))"
proof (induction calls arbitrary: db)
  case Nil
  then show ?case by simp
next
  case (Cons c calls)
  obtain rp pidx now where c: "c = (rp, pidx, now)" by (cases c) auto
  show ?case
  proof (cases "calls = []")
    case True
    then show ?thesis by (simp add: c count_after)
  next
    case False
    from Cons.IH[OF False, of "mark_game_completed db uid cid g rp pidx now"]
    show ?thesis by (simp add: c count_after)
  qed
qed

text \<open>
  Claim C4. \<open>mark_game_completed\<close> is idempotent. When a row for the user, the challenge
  and the game type exists, a call leaves the database session as it is; so a second call
  with the same three arguments (whatever revealed part, part index and time it passes)
  changes nothing after the first. Starting from a table with at most one row for the three,
  any non-empty sequence of calls for them leaves exactly one such row.
\<close>

theorem mark_game_completed_idempotent:
  "(has_completed db uid cid g \<longrightarrow> mark_game_completed db uid cid g rp pidx now = db)
   \<and> mark_game_completed (mark_game_completed db uid cid g rp pidx now) uid cid g rp' pidx' now'
       = mark_game_completed db uid cid g rp pidx now
   \<and> (calls \<noteq> []
        \<and> length (filter (\<lambda>r. user_id r = uid \<and> challenge_id r = cid \<and> minigame_type r = g)
                    (rows db)) \<le> 1
      \<longrightarrow> length (filter (\<lambda>r. user_id r = uid \<and> challenge_id r = cid \<and> minigame_type r = g)
             (rows (foldl (\<lambda>d (rp, pidx, now). mark_game_completed d uid cid g rp pidx now)
                      db calls))) = 1)"
proof (intro conjI impI)
  show "mark_game_completed db uid cid g rp pidx now = db" if "has_completed db uid cid g"
    using that by (rule mark_game_completed_noop)
  show "mark_game_completed (mark_game_completed db uid cid g rp pidx now) uid cid g rp' pidx' now'
       = mark_game_completed db uid cid g rp pidx now"
    by (rule mark_game_completed_noop) (rule has_completed_after)
  assume h: "calls \<noteq> []
        \<and> length (filter (\<lambda>r. user_id r = uid \<and> challenge_id r = cid \<and> minigame_type r = g)
                    (rows db)) \<le> 1"
  then show "length (filter (\<lambda>r. user_id r = uid \<and> challenge_id r = cid \<and> minigame_type r = g)
             (rows (foldl (\<lambda>d (rp, pidx, now). mark_game_completed d uid cid g rp pidx now)
                      db calls))) = 1"
    using count_after_calls[of calls uid cid g db] by (simp add: same_game_def[abs_def])
qed

theorem mark_game_completed_idempotent_witness:
  "has_completed (scenario_db [(''quiz'', ''CR'')]) 7 ''aes_easy'' ''quiz''
   \<and> mark_game_completed (scenario_db [(''quiz'', ''CR'')]) 7 ''aes_easy'' ''quiz'' ''CR'' None 2000
       = scenario_db [(''quiz'', ''CR'')]
   \<and> [(''CR'', None, 1000), (''CR'', None, 2000), (''XX'', Some 1, 3000)] \<noteq> []
   \<and> length (filter (\<lambda>r. user_id r = 7 \<and> challenge_id r = ''aes_easy'' \<and> minigame_type r = ''quiz'')
               (rows (scenario_db []))) \<le> 1
   \<and> length (filter (\<lambda>r. user_id r = 7 \<and> challenge_id r = ''aes_easy'' \<and> minigame_type r = ''quiz'')
        (rows (foldl (\<lambda>d (rp, pidx, now). mark_game_completed d 7 ''aes_easy'' ''quiz'' rp pidx now)
                 (scenario_db []) [(''CR'', None, 1000), (''CR'', None, 2000), (''XX'', Some 1, 3000)]))) = 1"
proof -
  have a: "has_completed (scenario_db [(''quiz'', ''CR'')]) 7 ''aes_easy'' ''quiz''"
    by code_simp
  have b: "length (filter (\<lambda>r. user_id r = 7 \<and> challenge_id r = ''aes_easy'' \<and> minigame_type r = ''quiz'')
               (rows (scenario_db []))) \<le> 1"
    by code_simp
  have c: "[(''CR'', None :: int option, 1000 :: nat), (''CR'', None, 2000), (''XX'', Some 1, 3000)] \<noteq> []"
    by simp
  note T1 = mark_game_completed_idempotent[of "scenario_db [(''quiz'', ''CR'')]" 7 "''aes_easy''"
        "''quiz''" "''CR''" None 2000, THEN conjunct1]
  note T3 = mark_game_completed_idempotent[of "scenario_db []" 7 "''aes_easy''"
        "''quiz''" _ _ _ _ _ _ "[(''CR'', None, 1000), (''CR'', None, 2000), (''XX'', Some 1, 3000)]",
        THEN conjunct2, THEN conjunct2]
  from T1 a T3 b c show ?thesis by blast
qed

text \<open>
  Claim C5. For every challenge and both values of \<open>exclude_flag\<close>, the dictionary of
  \<open>to_dict\<close> has the key \<open>flag\<close> with the stored flag as its value, and the two
  dictionaries are the same: the parameter has no effect.
\<close>

theorem to_dict_includes_flag:
  "map_of (to_dict c exclude_flag) ''flag'' = Some (JStr (flag c))
   \<and> to_dict c True = to_dict c False"
  by (simp add: to_dict_def)

section \<open>Session checks and the slider puzzle\<close>

text \<open>
  Claim C6. Each of the five completion handlers, called for a challenge for which the
  session holds no puzzle state of its game, answers \<open>success = False\<close> with the message
  \<open>Invalid session\<close> and nothing else, and returns the session and the database session
  as they were: no progress row is created.
\<close>

theorem completion_without_session_rejected:
  "(wheel_state sess c = None \<longrightarrow>
      wheel_complete sess db uid c now
        = ([(''success'', JBool False), (''message'', JStr ''Invalid session'')], sess, db))
   \<and> (quiz_state sess c = None \<longrightarrow>
      quiz_submit sess db uid c answers_field now
        = ([(''success'', JBool False), (''message'', JStr ''Invalid session'')], sess, db))
   \<and> (memory_state sess c = None \<longrightarrow>
      memory_complete sess db uid c now
        = ([(''success'', JBool False), (''message'', JStr ''Invalid session'')], sess, db))
   \<and> (slider_state sess c = None \<longrightarrow>
      slider_complete sess db uid c state_field now
        = ([(''success'', JBool False), (''message'', JStr ''Invalid session'')], sess, db))
   \<and> (scramble_state sess c = None \<longrightarrow>
      scramble_submit sess db uid c answer_field now
        = ([(''success'', JBool False), (''message'', JStr ''Invalid session'')], sess, db))"
  by (simp add: wheel_complete_def quiz_submit_def memory_complete_def slider_complete_def
      scramble_submit_def)

theorem completion_without_session_rejected_witness:
  "wheel_state empty_session ''aes_easy'' = None
   \<and> quiz_state empty_session ''aes_easy'' = None
   \<and> memory_state empty_session ''aes_easy'' = None
   \<and> slider_state empty_session ''aes_easy'' = None
   \<and> scramble_state empty_session ''aes_easy'' = None
   \<and> wheel_complete empty_session (scenario_db []) 7 ''aes_easy'' 1000
        = ([(''success'', JBool False), (''message'', JStr ''Invalid session'')],
           empty_session, scenario_db [])
   \<and> quiz_submit empty_session (scenario_db []) 7 ''aes_easy'' (Some [0, 2, 1]) 1000
        = ([(''success'', JBool False), (''message'', JStr ''Invalid session'')],
           empty_session, scenario_db [])
   \<and> memory_complete empty_session (scenario_db []) 7 ''aes_easy'' 1000
        = ([(''success'', JBool False), (''message'', JStr ''Invalid session'')],
           empty_session, scenario_db [])
   \<and> slider_complete empty_session (scenario_db []) 7 ''aes_easy'' (Some [1, 2, 3, 4, 5, 6, 7, 8, 0]) 1000
        = ([(''success'', JBool False), (''message'', JStr ''Invalid session'')],
           empty_session, scenario_db [])
   \<and> scramble_submit empty_session (scenario_db []) 7 ''aes_easy'' (Some ''HASHING'') 1000
        = ([(''success'', JBool False), (''message'', JStr ''Invalid session'')],
           empty_session, scenario_db [])"
  using completion_without_session_rejected[of empty_session "''aes_easy''" "scenario_db []" 7 1000
      "Some [0, 2, 1]" "Some [1, 2, 3, 4, 5, 6, 7, 8, 0]" "Some ''HASHING''"]
  by (simp add: empty_session_def)

lemma slider_solution_eq: "slider_solution = [1, 2, 3, 4, 5, 6, 7, 8, 0]"
  by code_simp

lemma rotations_differ:
  "\<forall>k \<in> set [1..<9]. rotate k [1, 2, 3, 4, 5, 6, 7, 8, 0 :: int] \<noteq> [1, 2, 3, 4, 5, 6, 7, 8, 0]"
  by code_simp

lemma transpositions_differ:
  "\<forall>j \<in> set [0..<9]. \<forall>i \<in> set [0..<j].
     ([1, 2, 3, 4, 5, 6, 7, 8, 0 :: int])[i := [1, 2, 3, 4, 5, 6, 7, 8, 0] ! j,
                                        j := [1, 2, 3, 4, 5, 6, 7, 8, 0] ! i]
       \<noteq> [1, 2, 3, 4, 5, 6, 7, 8, 0]"
  by code_simp

text \<open>
  Claim C8. \<open>verify_slider_solution\<close> accepts a tile arrangement exactly when it is the
  list \<open>1, 2, 3, 4, 5, 6, 7, 8, 0\<close>. In particular it rejects each of the eight proper
  rotations of that list, each of the thirty-six lists obtained by exchanging two of its
  positions, every list whose length is not nine, and the empty list.
\<close>

theorem verify_slider_solution_exact:
  "(verify_slider_solution puzzle_state \<longleftrightarrow> puzzle_state = [1, 2, 3, 4, 5, 6, 7, 8, 0])
   \<and> (0 < k \<and> k < 9 \<longrightarrow> \<not> verify_slider_solution (rotate k [1, 2, 3, 4, 5, 6, 7, 8, 0]))
   \<and> (i < j \<and> j < 9 \<longrightarrow>
        \<not> verify_slider_solution
            ([1, 2, 3, 4, 5, 6, 7, 8, 0][i := [1, 2, 3, 4, 5, 6, 7, 8, 0] ! j,
                                        j := [1, 2, 3, 4, 5, 6, 7, 8, 0] ! i]))
   \<and> (length puzzle_state \<noteq> 9 \<longrightarrow> \<not> verify_slider_solution puzzle_state)
   \<and> \<not> verify_slider_solution []"
proof (intro conjI impI)
  show "verify_slider_solution puzzle_state \<longleftrightarrow> puzzle_state = [1, 2, 3, 4, 5, 6, 7, 8, 0]"
    by (simp add: verify_slider_solution_def slider_solution_eq)
  show "\<not> verify_slider_solution (rotate k [1, 2, 3, 4, 5, 6, 7, 8, 0])" if "0 < k \<and> k < 9"
  proof -
    from that have "k \<in> set [1..<9]" by simp
    with rotations_differ show ?thesis
      unfolding verify_slider_solution_def slider_solution_eq by blast
  qed
  show "\<not> verify_slider_solution
            ([1, 2, 3, 4, 5, 6, 7, 8, 0][i := [1, 2, 3, 4, 5, 6, 7, 8, 0] ! j,
                                        j := [1, 2, 3, 4, 5, 6, 7, 8, 0] ! i])"
    if "i < j \<and> j < 9"
  proof -
    from that have "j \<in> set [0..<9]" "i \<in> set [0..<j]" by simp_all
    with transpositions_differ show ?thesis
      unfolding verify_slider_solution_def slider_solution_eq by blast
  qed
  show "\<not> verify_slider_solution puzzle_state" if "length puzzle_state \<noteq> 9"
    using that by (auto simp: verify_slider_solution_def slider_solution_eq)
  show "\<not> verify_slider_solution []"
    by (simp add: verify_slider_solution_def slider_solution_eq)
qed

theorem verify_slider_solution_exact_witness:
  "verify_slider_solution [1, 2, 3, 4, 5, 6, 7, 8, 0]
   \<and> (0::nat) < 1 \<and> (1::nat) < 9
   \<and> \<not> verify_slider_solution [2, 3, 4, 5, 6, 7, 8, 0, 1]
   \<and> (7::nat) < 8 \<and> (8::nat) < 9
   \<and> \<not> verify_slider_solution [1, 2, 3, 4, 5, 6, 7, 0, 8]
   \<and> length [1, 2, 3, 4, 5, 6, 7, 8 :: int] \<noteq> 9
   \<and> \<not> verify_slider_solution [1, 2, 3, 4, 5, 6, 7, 8]"
proof -
  have r: "rotate 1 [1, 2, 3, 4, 5, 6, 7, 8, 0 :: int] = [2, 3, 4, 5, 6, 7, 8, 0, 1]"
    by code_simp
  have t: "([1, 2, 3, 4, 5, 6, 7, 8, 0 :: int])[7 := [1, 2, 3, 4, 5, 6, 7, 8, 0] ! 8,
                                        8 := [1, 2, 3, 4, 5, 6, 7, 8, 0] ! 7]
            = [1, 2, 3, 4, 5, 6, 7, 0, 8]"
    by code_simp
  have l: "length [1, 2, 3, 4, 5, 6, 7, 8 :: int] \<noteq> 9" by simp
  have a: "verify_slider_solution [1, 2, 3, 4, 5, 6, 7, 8, 0]"
    using verify_slider_solution_exact[of "[1, 2, 3, 4, 5, 6, 7, 8, 0]" 1 0 1, THEN conjunct1]
    by simp
  have b: "\<not> verify_slider_solution [2, 3, 4, 5, 6, 7, 8, 0, 1]"
    using verify_slider_solution_exact[of "[]" 1 0 1, THEN conjunct2, THEN conjunct1]
    unfolding r by simp
  have c: "\<not> verify_slider_solution [1, 2, 3, 4, 5, 6, 7, 0, 8]"
    using verify_slider_solution_exact[of "[]" 1 7 8, THEN conjunct2, THEN conjunct2, THEN conjunct1]
    unfolding t by simp
  have d: "\<not> verify_slider_solution [1, 2, 3, 4, 5, 6, 7, 8]"
    using verify_slider_solution_exact[of "[1, 2, 3, 4, 5, 6, 7, 8]" 1 0 1,
        THEN conjunct2, THEN conjunct2, THEN conjunct2, THEN conjunct1] l
    by blast
  from a b c d l show ?thesis by simp
qed

section \<open>The quiz\<close>

lemma filter_upt_Suc:
  "length (filter P [0..<Suc n]) = (if P 0 then 1 else 0) + length (filter (P \<circ> Suc) [0..<n])"
proof -
  have "[0..<Suc n] = 0 # map Suc [0..<n]"
    by (simp add: upt_conv_Cons map_Suc_upt del: upt_Suc)
  then show ?thesis by (simp add: filter_map del: upt_Suc)
qed

lemma verify_loop_count:
  "verify_loop qs answers i correct =
     correct + length (filter (\<lambda>j. i + j < length answers \<and> answers ! (i + j) = q_answer (qs ! j))
                         [0..<length qs])"
proof (induction qs arbitrary: i correct)
  case Nil
  show ?case by simp
next
  case (Cons q rest)
  show ?case
    by (simp add: Cons.IH filter_upt_Suc comp_def del: upt_Suc)
qed

lemma verify_quiz_answers_count:
  "verify_quiz_answers questions answers =
     (length (filter (\<lambda>i. i < length answers \<and> answers ! i = q_answer (questions ! i))
                [0..<length questions]),
      length questions)"
  by (simp add: verify_quiz_answers_def verify_loop_count)

lemma quiz_submit_cases:
  assumes "quiz_state sess c = Some quiz"
  shows "quiz_submit sess db uid c answers_field now =
     (let answers = (case answers_field of None \<Rightarrow> [] | Some a \<Rightarrow> a);
          correct = fst (verify_quiz_answers (qd_questions quiz) answers);
          total = snd (verify_quiz_answers (qd_questions quiz) answers)
      in if 2 \<le> correct
         then ([(''success'', JBool True),
                (''correct'', JInt (int correct)),
                (''total'', JInt (int total)),
                (''revealed_part'', JStr (qd_key_part quiz)),
                (''message'', JStr (''Correct! Key part: '' @ qd_key_part quiz))],
               sess\<lparr>quiz_state := (quiz_state sess)(c := None)\<rparr>,
               mark_game_completed db uid c ''quiz'' (qd_key_part quiz) None now)
         else ([(''success'', JBool False),
                (''correct'', JInt (int correct)),
                (''total'', JInt (int total)),
                (''message'', JStr (''You got '' @ str_nat correct @ ''/'' @ str_nat total
                                     @ ''. Need at least 2 correct!''))], sess, db))"
  using assms by (simp add: quiz_submit_def Let_def split: prod.split)

text \<open>
  Claim C7. \<open>verify_quiz_answers\<close> returns the number of indices \<open>i\<close> of the served
  question list at which the submitted list has an entry and that entry is the stored
  correct index of question \<open>i\<close> (an index beyond the submitted list counts as wrong),
  together with the number of questions. With quiz state in the session, \<open>quiz_submit\<close>
  answers \<open>success = True\<close> exactly when that count is at least two; then the database
  session is the one \<open>mark_game_completed\<close> returns for the quiz (and the quiz counts
  as completed in it), and otherwise it is unchanged.
\<close>

theorem quiz_scoring:
  "verify_quiz_answers questions answers =
     (length (filter (\<lambda>i. i < length answers \<and> answers ! i = q_answer (questions ! i))
                [0..<length questions]),
      length questions)
   \<and> (quiz_state sess c = Some quiz \<longrightarrow>
        (let submitted = (case answers_field of None \<Rightarrow> [] | Some a \<Rightarrow> a);
             correct = fst (verify_quiz_answers (qd_questions quiz) submitted);
             out = quiz_submit sess db uid c answers_field now
         in map_of (fst out) ''success'' = Some (JBool (2 \<le> correct))
          \<and> snd (snd out) =
              (if 2 \<le> correct
               then mark_game_completed db uid c ''quiz'' (qd_key_part quiz) None now
               else db)
          \<and> (2 \<le> correct \<longrightarrow> has_completed (snd (snd out)) uid c ''quiz'')))"
proof (intro conjI impI)
  show "verify_quiz_answers questions answers =
     (length (filter (\<lambda>i. i < length answers \<and> answers ! i = q_answer (questions ! i))
                [0..<length questions]),
      length questions)"
    by (rule verify_quiz_answers_count)
next
  assume q: "quiz_state sess c = Some quiz"
  show "let submitted = (case answers_field of None \<Rightarrow> [] | Some a \<Rightarrow> a);
             correct = fst (verify_quiz_answers (qd_questions quiz) submitted);
             out = quiz_submit sess db uid c answers_field now
         in map_of (fst out) ''success'' = Some (JBool (2 \<le> correct))
          \<and> snd (snd out) =
              (if 2 \<le> correct
               then mark_game_completed db uid c ''quiz'' (qd_key_part quiz) None now
               else db)
          \<and> (2 \<le> correct \<longrightarrow> has_completed (snd (snd out)) uid c ''quiz'')"
    unfolding quiz_submit_cases[OF q] by (simp add: Let_def has_completed_after)
qed

theorem quiz_scoring_witness:
  "quiz_state quiz_session ''aes_easy''
     = Some \<lparr>qd_questions = take 3 QUIZ_QUESTIONS, qd_key_part = ''CR''\<rparr>
   \<and> verify_quiz_answers (take 3 QUIZ_QUESTIONS) [0, 2, 3] = (2, 3)
   \<and> map_of (fst (quiz_submit quiz_session (scenario_db []) 7 ''aes_easy'' (Some [0, 2, 3]) 1000))
        ''success'' = Some (JBool True)
   \<and> has_completed
        (snd (snd (quiz_submit quiz_session (scenario_db []) 7 ''aes_easy'' (Some [0, 2, 3]) 1000)))
        7 ''aes_easy'' ''quiz''
   \<and> verify_quiz_answers (take 3 QUIZ_QUESTIONS) [0] = (1, 3)
   \<and> map_of (fst (quiz_submit quiz_session (scenario_db []) 7 ''aes_easy'' (Some [0]) 1000))
        ''success'' = Some (JBool False)
   \<and> snd (snd (quiz_submit quiz_session (scenario_db []) 7 ''aes_easy'' (Some [0]) 1000))
        = scenario_db []"
proof -
  let ?quiz = "\<lparr>qd_questions = take 3 QUIZ_QUESTIONS, qd_key_part = ''CR''\<rparr>"
  have q: "quiz_state quiz_session ''aes_easy'' = Some ?quiz"
    by (simp add: quiz_session_def)
  have two: "verify_quiz_answers (take 3 QUIZ_QUESTIONS) [0, 2, 3] = (2, 3)" by code_simp
  have one: "verify_quiz_answers (take 3 QUIZ_QUESTIONS) [0] = (1, 3)" by code_simp
  note T = quiz_scoring[THEN conjunct2, rule_format, OF q]
  have a: "map_of (fst (quiz_submit quiz_session (scenario_db []) 7 ''aes_easy'' (Some [0, 2, 3]) 1000))
        ''success'' = Some (JBool True)
    \<and> has_completed
        (snd (snd (quiz_submit quiz_session (scenario_db []) 7 ''aes_easy'' (Some [0, 2, 3]) 1000)))
        7 ''aes_easy'' ''quiz''"
    using T[of "Some [0, 2, 3]" "scenario_db []" 7 1000] two
    by (simp add: Let_def has_completed_after)
  have b: "map_of (fst (quiz_submit quiz_session (scenario_db []) 7 ''aes_easy'' (Some [0]) 1000))
        ''success'' = Some (JBool False)
    \<and> snd (snd (quiz_submit quiz_session (scenario_db []) 7 ''aes_easy'' (Some [0]) 1000))
        = scenario_db []"
    using T[of "Some [0]" "scenario_db []" 7 1000] one by (simp add: Let_def)
  from q two one a b show ?thesis by blast
qed

section \<open>The stored part index\<close>

lemma appends_default_index_refl: "appends_default_index db db"
  by (simp add: appends_default_index_def)

lemma mark_default_appends:
  "appends_default_index db (mark_game_completed db uid cid g rp None now)"
  by (simp add: appends_default_index_def mark_game_completed_rows)

lemma wheel_complete_appends:
  "appends_default_index db (snd (snd (wheel_complete sess db uid c now)))"
  by (simp add: wheel_complete_def Let_def appends_default_index_refl mark_default_appends
      split: option.split)

lemma quiz_submit_appends:
  "appends_default_index db (snd (snd (quiz_submit sess db uid c answers_field now)))"
  by (simp add: quiz_submit_def Let_def appends_default_index_refl mark_default_appends
      split: option.split prod.split)

lemma memory_complete_appends:
  "appends_default_index db (snd (snd (memory_complete sess db uid c now)))"
  by (simp add: memory_complete_def Let_def appends_default_index_refl mark_default_appends
      split: option.split)

lemma slider_complete_appends:
  "appends_default_index db (snd (snd (slider_complete sess db uid c state_field now)))"
  by (simp add: slider_complete_def Let_def appends_default_index_refl mark_default_appends
      split: option.split)

lemma scramble_submit_appends:
  "appends_default_index db (snd (snd (scramble_submit sess db uid c answer_field now)))"
  by (simp add: scramble_submit_def Let_def appends_default_index_refl mark_default_appends
      split: option.split)

lemma split_key_quiz_slider_index:
  assumes "split_key key 5 = Inr parts" "p \<in> set parts"
  shows "(game_type p = ''quiz'' \<longrightarrow> index p = 1) \<and> (game_type p = ''slider'' \<longrightarrow> index p = 3)"
proof -
  from assms have k: "key \<noteq> []" by (auto simp: split_key_def)
  from split_key_part[OF k _ assms] have
    r: "0 \<le> index p" "index p < 5" and g: "game_type p = minigame_types ! (nat (index p) mod 5)"
    by simp_all
  from r have "index p = 0 \<or> index p = 1 \<or> index p = 2 \<or> index p = 3 \<or> index p = 4"
    by arith
  then show ?thesis using g by (auto simp: minigame_types_def)
qed

text \<open>
  Claim C10. Each of the five completion handlers leaves the rows of the progress table as
  they were or appends rows to them, and every row it appends has \<open>part_index = 0\<close>:
  no handler passes \<open>part_index\<close>, and \<open>mark_game_completed\<close> called without it
  stores \<open>0\<close>. Yet among the parts that \<open>split_key\<close> returns for five parts, the
  quiz part has index \<open>1\<close> and the slider part has index \<open>3\<close>; so the stored
  \<open>part_index\<close> does not tell which part of the key was revealed.
\<close>

theorem completion_rows_part_index_zero:
  "(\<exists>new. rows (snd (snd (wheel_complete sess db uid c now))) = rows db @ new
          \<and> (\<forall>r \<in> set new. part_index r = 0))
   \<and> (\<exists>new. rows (snd (snd (quiz_submit sess db uid c answers_field now))) = rows db @ new
          \<and> (\<forall>r \<in> set new. part_index r = 0))
   \<and> (\<exists>new. rows (snd (snd (memory_complete sess db uid c now))) = rows db @ new
          \<and> (\<forall>r \<in> set new. part_index r = 0))
   \<and> (\<exists>new. rows (snd (snd (slider_complete sess db uid c state_field now))) = rows db @ new
          \<and> (\<forall>r \<in> set new. part_index r = 0))
   \<and> (\<exists>new. rows (snd (snd (scramble_submit sess db uid c answer_field now))) = rows db @ new
          \<and> (\<forall>r \<in> set new. part_index r = 0))
   \<and> (\<not> has_completed db uid c g \<longrightarrow>
        rows (mark_game_completed db uid c g rp None now)
          = rows db @ [\<lparr>row_id = next_id db, user_id = uid, challenge_id = c, minigame_type = g,
                         part_index = 0, revealed_part = rp, completed_at = Some now\<rparr>])
   \<and> (split_key key 5 = Inr parts \<and> p \<in> set parts \<longrightarrow>
        (game_type p = ''quiz'' \<longrightarrow> index p = 1) \<and> (game_type p = ''slider'' \<longrightarrow> index p = 3))"
proof (intro conjI impI)
  show "\<exists>new. rows (snd (snd (wheel_complete sess db uid c now))) = rows db @ new
          \<and> (\<forall>r \<in> set new. part_index r = 0)"
    using wheel_complete_appends unfolding appends_default_index_def .
  show "\<exists>new. rows (snd (snd (quiz_submit sess db uid c answers_field now))) = rows db @ new
          \<and> (\<forall>r \<in> set new. part_index r = 0)"
    using quiz_submit_appends unfolding appends_default_index_def .
  show "\<exists>new. rows (snd (snd (memory_complete sess db uid c now))) = rows db @ new
          \<and> (\<forall>r \<in> set new. part_index r = 0)"
    using memory_complete_appends unfolding appends_default_index_def .
  show "\<exists>new. rows (snd (snd (slider_complete sess db uid c state_field now))) = rows db @ new
          \<and> (\<forall>r \<in> set new. part_index r = 0)"
    using slider_complete_appends unfolding appends_default_index_def .
  show "\<exists>new. rows (snd (snd (scramble_submit sess db uid c answer_field now))) = rows db @ new
          \<and> (\<forall>r \<in> set new. part_index r = 0)"
    using scramble_submit_appends unfolding appends_default_index_def .
  show "rows (mark_game_completed db uid c g rp None now)
          = rows db @ [\<lparr>row_id = next_id db, user_id = uid, challenge_id = c, minigame_type = g,
                         part_index = 0, revealed_part = rp, completed_at = Some now\<rparr>]"
    if "\<not> has_completed db uid c g"
    using that by (simp add: mark_game_completed_rows)
  show "game_type p = ''quiz'' \<Longrightarrow> index p = 1" "game_type p = ''slider'' \<Longrightarrow> index p = 3"
    if "split_key key 5 = Inr parts \<and> p \<in> set parts"
    using split_key_quiz_slider_index[of key parts p] that by simp_all
qed

theorem completion_rows_part_index_zero_witness:
  "split_key ''SECRET12'' 5 = Inr scenario_parts
   \<and> scenario_parts ! 1 \<in> set scenario_parts
   \<and> game_type (scenario_parts ! 1) = ''quiz''
   \<and> index (scenario_parts ! 1) = 1
   \<and> \<not> has_completed (scenario_db []) 7 ''aes_easy'' ''quiz''
   \<and> rows (snd (snd (quiz_submit quiz_session (scenario_db []) 7 ''aes_easy'' (Some [0, 2, 3]) 1000)))
       = [\<lparr>row_id = 1, user_id = 7, challenge_id = ''aes_easy'', minigame_type = ''quiz'',
           part_index = 0, revealed_part = ''CR'', completed_at = Some 1000\<rparr>]"
proof -
  have m: "scenario_parts ! 1 \<in> set scenario_parts" "game_type (scenario_parts ! 1) = ''quiz''"
    by (simp_all add: scenario_parts_def)
  have n: "\<not> has_completed (scenario_db []) 7 ''aes_easy'' ''quiz''"
    by code_simp
  have d: "rows (scenario_db []) = []" "next_id (scenario_db []) = 1"
    by (simp_all add: scenario_db_def)
  have q: "snd (snd (quiz_submit quiz_session (scenario_db []) 7 ''aes_easy'' (Some [0, 2, 3]) 1000))
           = mark_game_completed (scenario_db []) 7 ''aes_easy'' ''quiz'' ''CR'' None 1000"
    by code_simp
  note T = completion_rows_part_index_zero[of quiz_session "scenario_db []" 7 "''aes_easy''" 1000
      "Some [0, 2, 3]" None None "''quiz''" "''CR''" "''SECRET12''" scenario_parts "scenario_parts ! 1"]
  have i: "index (scenario_parts ! 1) = 1"
    using T scenario_split m by blast
  have r: "rows (mark_game_completed (scenario_db []) 7 ''aes_easy'' ''quiz'' ''CR'' None 1000)
       = [\<lparr>row_id = 1, user_id = 7, challenge_id = ''aes_easy'', minigame_type = ''quiz'',
           part_index = 0, revealed_part = ''CR'', completed_at = Some 1000\<rparr>]"
    using T n by (simp add: d)
  from scenario_split m i n r q show ?thesis by simp
qed

section \<open>The word scramble\<close>

lemma valid_shuffle_mset: "valid_shuffle n p \<Longrightarrow> mset p = mset [0..<n]"
  unfolding valid_shuffle_def by (metis mset_sort)

lemma permute_mset:
  assumes "valid_shuffle (length xs) p"
  shows "mset (permute p xs) = mset xs"
proof -
  have "mset (permute p xs) = image_mset (\<lambda>i. xs ! i) (mset p)"
    by (simp add: permute_def)
  also have "\<dots> = image_mset (\<lambda>i. xs ! i) (mset [0..<length xs])"
    using valid_shuffle_mset[OF assms] by simp
  also have "\<dots> = mset (map (\<lambda>i. xs ! i) [0..<length xs])"
    by simp
  also have "\<dots> = mset xs"
    by (simp add: map_nth)
  finally show ?thesis .
qed

lemma scramble_loop_inv:
  "scramble_loop w cur shuffle i = Some s \<Longrightarrow>
   (\<forall>j. valid_shuffle (length w) (shuffle j)) \<and> mset cur = mset w \<longrightarrow>
   mset s = mset w \<and> s \<noteq> w"
proof (induction w cur shuffle i s rule: scramble_loop.raw_induct[rotated, consumes 1])
  case (1 scramble_loop' w cur shuffle i s)
  show ?case
  proof
    assume h: "(\<forall>j. valid_shuffle (length w) (shuffle j)) \<and> mset cur = mset w"
    show "mset s = mset w \<and> s \<noteq> w"
    proof (cases "cur = w")
      case True
      with 1(2) have step: "scramble_loop' w (permute (shuffle i) cur) shuffle (Suc i) = Some s"
        by simp
      have "valid_shuffle (length cur) (shuffle i)"
        using h True by simp
      then have m: "mset (permute (shuffle i) cur) = mset w"
        using permute_mset h by metis
      from 1(1)[OF step] h m show ?thesis by blast
    next
      case False
      with 1(2) have "s = cur" by simp
      with False h show ?thesis by simp
    qed
  qed
qed

lemma scramble_words_length: "length SCRAMBLE_WORDS = 10"
  by (simp add: SCRAMBLE_WORDS_def)

text \<open>
  The loop can return for each of the ten words (a shuffle that exchanges the first two
  letters changes every one of them), and it does not return when every shuffle leaves
  the letters where they are.
\<close>

lemma generate_scramble_can_return:
  "\<forall>choice \<in> set [0..<10].
     valid_shuffle (length (fst (SCRAMBLE_WORDS ! choice)))
       (1 # 0 # [2..<length (fst (SCRAMBLE_WORDS ! choice))])
     \<and> generate_scramble choice (\<lambda>j. 1 # 0 # [2..<length (fst (SCRAMBLE_WORDS ! choice))]) \<noteq> None"
  by code_simp

lemma scramble_loop_identity:
  "scramble_loop w cur shuffle i = Some s \<Longrightarrow>
   cur = w \<and> (\<forall>j. shuffle j = [0..<length w]) \<longrightarrow> False"
proof (induction w cur shuffle i s rule: scramble_loop.raw_induct[rotated, consumes 1])
  case (1 scramble_loop' w cur shuffle i s)
  show ?case
  proof
    assume h: "cur = w \<and> (\<forall>j. shuffle j = [0..<length w])"
    then have "permute (shuffle i) cur = w"
      by (simp add: permute_def map_nth)
    with 1(2) h have "scramble_loop' w w shuffle (Suc i) = Some s" by simp
    from 1(1)[OF this] h show False by blast
  qed
qed

lemma generate_scramble_may_not_return:
  "generate_scramble choice (\<lambda>j. [0..<length (fst (SCRAMBLE_WORDS ! choice))]) = None"
proof -
  obtain w h where wh: "SCRAMBLE_WORDS ! choice = (w, h)" by (cases "SCRAMBLE_WORDS ! choice")
  have p: "permute [0..<length w] w = w" by (simp add: permute_def map_nth)
  have "scramble_loop w w (\<lambda>j. [0..<length w]) 1 = None"
    using scramble_loop_identity[of w w "\<lambda>j. [0..<length w]" 1] by (cases "scramble_loop w w (\<lambda>j. [0..<length w]) 1") auto
  then show ?thesis by (simp add: generate_scramble_def wh p)
qed

text \<open>
  Claim C9. Whenever \<open>generate_scramble\<close> returns (the choice is an index into the
  word list and every shuffle is a permutation of the positions of the word), the
  \<open>scrambled\<close> field has the same characters with the same multiplicities as the
  \<open>word\<close> field and is not equal to it, and the pair of \<open>word\<close> and \<open>hint\<close> is
  the chosen entry of the list of ten pairs. This holds for each of the ten words.
\<close>

theorem generate_scramble_differs:
  assumes "choice < length SCRAMBLE_WORDS"
    and "\<forall>j. valid_shuffle (length (fst (SCRAMBLE_WORDS ! choice))) (shuffle j)"
    and "generate_scramble choice shuffle = Some puzzle"
  shows "mset (scrambled puzzle) = mset (word puzzle)
         \<and> scrambled puzzle \<noteq> word puzzle
         \<and> (word puzzle, hint puzzle) \<in> set SCRAMBLE_WORDS
         \<and> (word puzzle, hint puzzle) = SCRAMBLE_WORDS ! choice
         \<and> length SCRAMBLE_WORDS = 10"
proof -
  obtain w h where wh: "SCRAMBLE_WORDS ! choice = (w, h)" by (cases "SCRAMBLE_WORDS ! choice")
  from assms(3) obtain s where
    s: "scramble_loop w (permute (shuffle 0) w) shuffle 1 = Some s"
    and p: "puzzle = \<lparr>scrambled = s, word = w, hint = h\<rparr>"
    by (auto simp: generate_scramble_def wh split: option.splits)
  have v: "\<forall>j. valid_shuffle (length w) (shuffle j)" using assms(2) by (simp add: wh)
  then have "mset (permute (shuffle 0) w) = mset w" by (simp add: permute_mset)
  with scramble_loop_inv[OF s] v have "mset s = mset w \<and> s \<noteq> w" by simp
  moreover have "(w, h) \<in> set SCRAMBLE_WORDS"
    using assms(1) wh by (metis nth_mem)
  ultimately show ?thesis by (simp add: p wh scramble_words_length)
qed

theorem generate_scramble_differs_witness:
  "7 < length SCRAMBLE_WORDS
   \<and> (\<forall>j. valid_shuffle (length (fst (SCRAMBLE_WORDS ! 7))) ((\<lambda>j. [1, 0, 2, 3, 4, 5, 6]) j))
   \<and> generate_scramble 7 (\<lambda>j. [1, 0, 2, 3, 4, 5, 6])
       = Some \<lparr>scrambled = ''AHSHING'', word = ''HASHING'', hint = ''One-way function''\<rparr>
   \<and> mset ''AHSHING'' = mset ''HASHING'' \<and> ''AHSHING'' \<noteq> ''HASHING''
   \<and> (''HASHING'', ''One-way function'') \<in> set SCRAMBLE_WORDS"
proof -
  have a: "7 < length SCRAMBLE_WORDS" by (simp add: scramble_words_length)
  have b: "\<forall>j. valid_shuffle (length (fst (SCRAMBLE_WORDS ! 7))) ((\<lambda>j. [1, 0, 2, 3, 4, 5, 6]) j)"
  proof
    fix j :: nat
    show "valid_shuffle (length (fst (SCRAMBLE_WORDS ! 7))) ((\<lambda>j. [1, 0, 2, 3, 4, 5, 6]) j)"
      by code_simp
  qed
  have c: "generate_scramble 7 (\<lambda>j. [1, 0, 2, 3, 4, 5, 6])
       = Some \<lparr>scrambled = ''AHSHING'', word = ''HASHING'', hint = ''One-way function''\<rparr>"
    by code_simp
  from generate_scramble_differs[OF a b c] a b c show ?thesis by simp
qed

end
